theory Spec2Isabelle
  imports Main
begin

section \<open>The distance-vector router of DVrouter.py\<close>

text \<open>
  The router is a Python object with three dictionaries. A Python dictionary keeps
  its keys in insertion order and the code iterates over them (the first neighbour
  on a port, the first neighbour with the least cost), so every dictionary is an
  association list with the dictionary's own update: an assignment to a key that is
  present replaces the value in place, an assignment to a new key appends.
  Addresses are strings, ports and costs are Python integers.
\<close>

type_synonym address = string

definition INFINITY :: int where
  "INFINITY = 16"

fun dict_set :: "('k \<times> 'v) list \<Rightarrow> 'k \<Rightarrow> 'v \<Rightarrow> ('k \<times> 'v) list" where
  "dict_set [] k v = [(k, v)]"
| "dict_set ((k', v') # kvs) k v =
     (if k' = k then (k, v) # kvs else (k', v') # dict_set kvs k v)"

definition dict_del :: "('k \<times> 'v) list \<Rightarrow> 'k \<Rightarrow> ('k \<times> 'v) list" where
  "dict_del kvs k = filter (\<lambda>kv. fst kv \<noteq> k) kvs"

definition dict_keys :: "('k \<times> 'v) list \<Rightarrow> 'k list" where
  "dict_keys kvs = map fst kvs"

definition dict_values :: "('k \<times> 'v) list \<Rightarrow> 'v list" where
  "dict_values kvs = map snd kvs"

text \<open>
  Equality of two Python dictionaries does not look at the order of the keys: the
  two have the same keys and the same value at every key.
\<close>

definition dict_eq :: "('k \<times> 'v) list \<Rightarrow> ('k \<times> 'v) list \<Rightarrow> bool" where
  "dict_eq a b = list_all (\<lambda>k. map_of a k = map_of b k) (dict_keys a @ dict_keys b)"

subsection \<open>Packets and decoded payloads\<close>

text \<open>
  Modelled from the spec: the class \<^verbatim>\<open>Packet\<close> of the simulator (\<^verbatim>\<open>packet.py\<close>) is
  not among the sources. The specification describes a packet as a value with a
  source address, a destination address, the distinction between a data (traceroute)
  packet and a routing packet, and a content; the code reads
  \<^verbatim>\<open>is_traceroute\<close>, \<^verbatim>\<open>src_addr\<close>, \<^verbatim>\<open>dst_addr\<close> and \<^verbatim>\<open>content\<close> and builds routing
  packets with \<^verbatim>\<open>Packet(Packet.ROUTING, src, dst, content)\<close>.

  The content of a routing packet is a text that \<^verbatim>\<open>json.loads\<close> decodes. The model
  identifies the text with what the decoder makes of it: either the decoder raises
  \<^verbatim>\<open>JSONDecodeError\<close> (\<open>Garbled\<close>), or it returns a Python value built from
  \<^verbatim>\<open>None\<close>, booleans, numbers, strings, lists and dictionaries with string keys.
  Numbers are integers here, as the costs of the simulator are; \<open>JObj\<close> holds the
  items of the decoded dictionary.
\<close>

datatype json =
    JNull
  | JBool bool
  | JNum int
  | JStr string
  | JArr "json list"
  | JObj "(string \<times> json) list"

datatype payload = Garbled | Json json

datatype packet_kind = TRACEROUTE | ROUTING

record packet =
  kind :: packet_kind
  src_addr :: address
  dst_addr :: address
  content :: payload

definition is_traceroute :: "packet \<Rightarrow> bool" where
  "is_traceroute p = (kind p = TRACEROUTE)"

datatype error = JSONDecodeError | KeyError | AttributeError | TypeError

definition json_loads :: "payload \<Rightarrow> error + json" where
  "json_loads c = (case c of Garbled \<Rightarrow> Inl JSONDecodeError | Json j \<Rightarrow> Inr j)"

text \<open>\<^verbatim>\<open>json.dumps\<close> of a dictionary from destinations to integer costs.\<close>

definition json_dumps :: "(address \<times> int) list \<Rightarrow> payload" where
  "json_dumps dv = Json (JObj (map (\<lambda>kv. (fst kv, JNum (snd kv))) dv))"

subsection \<open>The state of a router\<close>

record neighbor_info =
  port :: int
  cost :: int

type_synonym route_entry = "int \<times> address option"

record router =
  addr :: address
  heartbeat_time :: int
  last_time :: int
  distance_vector :: "(address \<times> route_entry) list"
  neighbors :: "(address \<times> neighbor_info) list"
  neighbor_dvs :: "(address \<times> json) list"

definition init :: "address \<Rightarrow> int \<Rightarrow> router" where
  "init a hb =
     \<lparr>addr = a, heartbeat_time = hb, last_time = 0,
      distance_vector = [(a, (0, Some a))], neighbors = [], neighbor_dvs = []\<rparr>"

text \<open>
  Modelled from the spec: the method \<^verbatim>\<open>send\<close> of the base class \<^verbatim>\<open>Router\<close>
  (\<^verbatim>\<open>router.py\<close>) is not among the sources. The specification describes it as
  handing a packet to the fabric on an interface, with no return value and no
  confirmation; the model records each call as a pair of port and packet.

  A handler either returns, with the new state and the packets it handed to
  \<^verbatim>\<open>send\<close>, in order, or raises, and then the state is the one the object has at
  the raise.
\<close>

type_synonym sent = "int \<times> packet"
type_synonym outcome = "(error \<times> router) + (router \<times> sent list)"

fun state_of :: "outcome \<Rightarrow> router" where
  "state_of (Inl (e, r)) = r"
| "state_of (Inr (r, out)) = r"

fun sent_of :: "outcome \<Rightarrow> sent list" where
  "sent_of (Inl (e, r)) = []"
| "sent_of (Inr (r, out)) = out"

subsection \<open>broadcast_dv\<close>

definition get_dv_for_broadcast :: "router \<Rightarrow> (address \<times> int) list" where
  "get_dv_for_broadcast r = map (\<lambda>e. (fst e, fst (snd e))) (distance_vector r)"

text \<open>The poisoned-reverse loop over the routing table, for one neighbour.\<close>

fun poison :: "address \<Rightarrow> (address \<times> route_entry) list \<Rightarrow> (address \<times> int) list
    \<Rightarrow> (address \<times> int) list" where
  "poison neighbor_addr [] dv_to_send = dv_to_send"
| "poison neighbor_addr ((dest, (c, next_hop)) # es) dv_to_send =
     (if next_hop = Some neighbor_addr \<and> dest \<noteq> neighbor_addr
      then poison neighbor_addr es (dict_set dv_to_send dest INFINITY)
      else poison neighbor_addr es dv_to_send)"

definition dv_packet :: "router \<Rightarrow> address \<Rightarrow> packet" where
  "dv_packet r neighbor_addr =
     \<lparr>kind = ROUTING, src_addr = addr r, dst_addr = neighbor_addr,
      content = json_dumps (poison neighbor_addr (distance_vector r) (get_dv_for_broadcast r))\<rparr>"

definition broadcast_dv :: "router \<Rightarrow> sent list" where
  "broadcast_dv r =
     map (\<lambda>n. (port (snd n), dv_packet r (fst n))) (neighbors r)"

subsection \<open>update_dv\<close>

text \<open>
  \<^verbatim>\<open>dv.keys()\<close> exists on a dictionary only: on any other decoded value the
  attribute lookup raises \<^verbatim>\<open>AttributeError\<close>.
\<close>

fun dv_keys :: "json \<Rightarrow> error + address list" where
  "dv_keys (JObj kvs) = Inr (dict_keys kvs)"
| "dv_keys _ = Inl AttributeError"

fun collect_keys :: "json list \<Rightarrow> error + address list" where
  "collect_keys [] = Inr []"
| "collect_keys (dv # dvs) =
     (case dv_keys dv of
        Inl e \<Rightarrow> Inl e
      | Inr ks \<Rightarrow> (case collect_keys dvs of Inl e \<Rightarrow> Inl e | Inr ks' \<Rightarrow> Inr (ks @ ks')))"

text \<open>
  \<open>all_dests\<close> is a Python set. The order in which Python iterates over it is
  its own; the model fixes one order, each candidate once. The table that the loop
  builds is compared and read as a dictionary, which does not depend on that order.
\<close>

definition all_dests :: "router \<Rightarrow> error + address list" where
  "all_dests r =
     (case collect_keys (dict_values (neighbor_dvs r)) of
        Inl e \<Rightarrow> Inl e
      | Inr ks \<Rightarrow> Inr (remdups (addr r # dict_keys (neighbors r) @ ks)))"

text \<open>
  The operand \<^verbatim>\<open>cost_vy\<close> of the addition: an integer adds as it is, a boolean
  as 0 or 1 (Python's \<^verbatim>\<open>bool\<close> is a subclass of \<^verbatim>\<open>int\<close>), and the addition of an
  integer and anything else raises \<^verbatim>\<open>TypeError\<close>.
\<close>

fun as_number :: "json \<Rightarrow> error + int" where
  "as_number (JNum n) = Inr n"
| "as_number (JBool b) = Inr (if b then 1 else 0)"
| "as_number _ = Inl TypeError"

definition cost_vy :: "router \<Rightarrow> address \<Rightarrow> address \<Rightarrow> error + int" where
  "cost_vy r dest v_addr =
     (if dest = v_addr then Inr 0
      else (case (case map_of (neighbor_dvs r) v_addr of None \<Rightarrow> JObj [] | Some dv \<Rightarrow> dv) of
              JObj kvs \<Rightarrow> (case map_of kvs dest of None \<Rightarrow> Inr INFINITY | Some j \<Rightarrow> as_number j)
            | _ \<Rightarrow> Inl AttributeError))"

definition total_cost :: "router \<Rightarrow> address \<Rightarrow> address \<times> neighbor_info \<Rightarrow> error + int" where
  "total_cost r dest n =
     (case cost_vy r dest (fst n) of Inl e \<Rightarrow> Inl e | Inr c \<Rightarrow> Inr (cost (snd n) + c))"

text \<open>The inner loop over the neighbours, on the pair \<^verbatim>\<open>(min_cost, next_hop)\<close>.\<close>

fun relax :: "router \<Rightarrow> address \<Rightarrow> (address \<times> neighbor_info) list \<Rightarrow> route_entry
    \<Rightarrow> error + route_entry" where
  "relax r dest [] best = Inr best"
| "relax r dest (n # ns) best =
     (case total_cost r dest n of
        Inl e \<Rightarrow> Inl e
      | Inr t \<Rightarrow>
          (if t < fst best then relax r dest ns (t, Some (fst n))
           else relax r dest ns best))"

text \<open>The outer loop over the candidate destinations, on \<^verbatim>\<open>new_dv\<close>.\<close>

fun build :: "router \<Rightarrow> address list \<Rightarrow> (address \<times> route_entry) list
    \<Rightarrow> error + (address \<times> route_entry) list" where
  "build r [] new_dv = Inr new_dv"
| "build r (dest # ds) new_dv =
     (if dest = addr r then build r ds new_dv
      else (case relax r dest (neighbors r) (INFINITY, None) of
              Inl e \<Rightarrow> Inl e
            | Inr best \<Rightarrow>
                (if min (fst best) INFINITY < INFINITY
                 then build r ds (dict_set new_dv dest (min (fst best) INFINITY, snd best))
                 else build r ds new_dv)))"

definition new_dv :: "router \<Rightarrow> error + (address \<times> route_entry) list" where
  "new_dv r =
     (case all_dests r of
        Inl e \<Rightarrow> Inl e
      | Inr ds \<Rightarrow> build r ds [(addr r, (0, Some (addr r)))])"

definition update_dv :: "router \<Rightarrow> outcome" where
  "update_dv r =
     (case new_dv r of
        Inl e \<Rightarrow> Inl (e, r)
      | Inr nd \<Rightarrow>
          (if \<not> dict_eq nd (distance_vector r)
           then Inr (r\<lparr>distance_vector := nd\<rparr>, broadcast_dv (r\<lparr>distance_vector := nd\<rparr>))
           else Inr (r, [])))"

subsection \<open>The handlers\<close>

text \<open>
  The routing branch of \<^verbatim>\<open>handle_packet\<close> runs inside
  \<^verbatim>\<open>try: ... except (json.JSONDecodeError, KeyError)\<close>: these two are caught (a
  line is printed, the state stays as it is at the raise), any other exception
  leaves the handler.
\<close>

definition caught :: "error \<Rightarrow> bool" where
  "caught e = (e = JSONDecodeError \<or> e = KeyError)"

definition handle_packet :: "router \<Rightarrow> int \<Rightarrow> packet \<Rightarrow> outcome" where
  "handle_packet r prt p =
     (if is_traceroute p then
        (case map_of (distance_vector r) (dst_addr p) of
           None \<Rightarrow> Inr (r, [])
         | Some (c, next_hop) \<Rightarrow>
             (if c < INFINITY then
                (case next_hop of
                   None \<Rightarrow> Inr (r, [])
                 | Some nh \<Rightarrow>
                     (case map_of (neighbors r) nh of
                        None \<Rightarrow> Inr (r, [])
                      | Some info \<Rightarrow> Inr (r, [(port info, p)])))
              else Inr (r, [])))
      else
        (case (case json_loads (content p) of
                 Inl e \<Rightarrow> Inl (e, r)
               | Inr received_dv \<Rightarrow>
                   (if src_addr p \<in> set (dict_keys (neighbors r))
                    then update_dv
                           (r\<lparr>neighbor_dvs := dict_set (neighbor_dvs r) (src_addr p) received_dv\<rparr>)
                    else Inr (r, []))) of
           Inl (e, r') \<Rightarrow> (if caught e then Inr (r', []) else Inl (e, r'))
         | Inr res \<Rightarrow> Inr res))"

definition handle_new_link :: "router \<Rightarrow> int \<Rightarrow> address \<Rightarrow> int \<Rightarrow> outcome" where
  "handle_new_link r prt endpoint c =
     update_dv
       (r\<lparr>neighbors := dict_set (neighbors r) endpoint \<lparr>port = prt, cost = c\<rparr>,
          neighbor_dvs := dict_set (neighbor_dvs r) endpoint (JObj [])\<rparr>)"

text \<open>The first neighbour, in the order of the dictionary, bound to the port.\<close>

fun find_endpoint :: "(address \<times> neighbor_info) list \<Rightarrow> int \<Rightarrow> address option" where
  "find_endpoint [] prt = None"
| "find_endpoint (n # ns) prt =
     (if port (snd n) = prt then Some (fst n) else find_endpoint ns prt)"

text \<open>
  The loop that sets every route through the removed neighbour to
  \<^verbatim>\<open>(INFINITY, None)\<close>; the keys keep their places.
\<close>

definition withdraw :: "address \<Rightarrow> (address \<times> route_entry) list \<Rightarrow> (address \<times> route_entry) list" where
  "withdraw endpoint dv =
     map (\<lambda>e. if snd (snd e) = Some endpoint then (fst e, (INFINITY, None)) else e) dv"

text \<open>
  \<^verbatim>\<open>if endpoint_to_remove:\<close> tests the truth value of the address: no neighbour
  found (\<^verbatim>\<open>None\<close>) and the empty string are both false.
\<close>

definition handle_remove_link :: "router \<Rightarrow> int \<Rightarrow> outcome" where
  "handle_remove_link r prt =
     (case find_endpoint (neighbors r) prt of
        None \<Rightarrow> Inr (r, [])
      | Some endpoint \<Rightarrow>
          (if endpoint = [] then Inr (r, [])
           else update_dv
                  (r\<lparr>neighbors := dict_del (neighbors r) endpoint,
                     neighbor_dvs := dict_del (neighbor_dvs r) endpoint,
                     distance_vector := withdraw endpoint (distance_vector r)\<rparr>)))"

definition handle_time :: "router \<Rightarrow> int \<Rightarrow> outcome" where
  "handle_time r time_ms =
     (if time_ms - last_time r \<ge> heartbeat_time r
      then Inr (r\<lparr>last_time := time_ms\<rparr>, broadcast_dv (r\<lparr>last_time := time_ms\<rparr>))
      else Inr (r, []))"

subsection \<open>Runs of a router\<close>

datatype event =
    Packet int packet
  | NewLink int address int
  | RemoveLink int
  | Time int

fun handle :: "router \<Rightarrow> event \<Rightarrow> outcome" where
  "handle r (Packet prt p) = handle_packet r prt p"
| "handle r (NewLink prt endpoint c) = handle_new_link r prt endpoint c"
| "handle r (RemoveLink prt) = handle_remove_link r prt"
| "handle r (Time t) = handle_time r t"

text \<open>
  The state after a sequence of events, whether a handler returned or raised: the
  object keeps the state it had at the raise.
\<close>

fun run :: "router \<Rightarrow> event list \<Rightarrow> router" where
  "run r [] = r"
| "run r (ev # evs) = run (state_of (handle r ev)) evs"

subsection \<open>An example run\<close>

text \<open>
  Router A gets a link to B and a link to C, both of cost 1, and then C advertises
  that it reaches D at cost 1.
\<close>

definition example_events :: "event list" where
  "example_events =
     [NewLink 1 ''B'' 1, NewLink 2 ''C'' 1,
      Packet 2 \<lparr>kind = ROUTING, src_addr = ''C'', dst_addr = ''A'',
                content = Json (JObj [(''D'', JNum 1), (''C'', JNum 0)])\<rparr>]"

definition example_router :: router where
  "example_router =
     \<lparr>addr = ''A'', heartbeat_time = 100, last_time = 0,
      distance_vector =
        [(''A'', (0, Some ''A'')), (''B'', (1, Some ''B'')), (''D'', (2, Some ''C'')),
         (''C'', (1, Some ''C''))],
      neighbors = [(''B'', \<lparr>port = 1, cost = 1\<rparr>), (''C'', \<lparr>port = 2, cost = 1\<rparr>)],
      neighbor_dvs = [(''B'', JObj []), (''C'', JObj [(''D'', JNum 1), (''C'', JNum 0)])]\<rparr>"


subsection \<open>Recomputation as the specification words it\<close>

text \<open>
  The definitions of this part follow the words of the specification of the
  recomputation, not the code: the cost a neighbour \<open>v\<close> last advertised for \<open>d\<close>
  (0 for \<open>v\<close> itself, \<open>INFINITY\<close> where it advertised none), the estimate through a
  neighbour, the least estimate clamped to \<open>INFINITY\<close>, and the set of candidate
  destinations. The theorems compare them with what \<open>update_dv\<close> computes.
\<close>

definition advertisedCost :: "router \<Rightarrow> address \<Rightarrow> address \<Rightarrow> int" where
  "advertisedCost r v d =
     (if d = v then 0
      else (case map_of (neighbor_dvs r) v of
              Some (JObj kvs) \<Rightarrow>
                (case map_of kvs d of
                   Some (JNum n) \<Rightarrow> n
                 | Some (JBool b) \<Rightarrow> (if b then 1 else 0)
                 | _ \<Rightarrow> INFINITY)
            | _ \<Rightarrow> INFINITY))"

definition estimate :: "router \<Rightarrow> address \<times> neighbor_info \<Rightarrow> address \<Rightarrow> int" where
  "estimate r n d = cost (snd n) + advertisedCost r (fst n) d"

definition newCost :: "router \<Rightarrow> address \<Rightarrow> int" where
  "newCost r d = Min (insert INFINITY ((\<lambda>n. estimate r n d) ` set (neighbors r)))"

definition advertised_keys :: "json \<Rightarrow> address set" where
  "advertised_keys dv = (case dv of JObj kvs \<Rightarrow> set (dict_keys kvs) | _ \<Rightarrow> {})"

definition candidates :: "router \<Rightarrow> address set" where
  "candidates r =
     insert (addr r) (set (dict_keys (neighbors r)) \<union>
       \<Union> (advertised_keys ` set (dict_values (neighbor_dvs r))))"


text \<open>
  The state in the middle of the first link-up of the example: the neighbour B is
  recorded, the table is not recomputed yet; and the table and the packet that the
  recomputation gives.
\<close>

definition link_up_router :: router where
  "link_up_router =
     \<lparr>addr = ''A'', heartbeat_time = 100, last_time = 0,
      distance_vector = [(''A'', (0, Some ''A''))],
      neighbors = [(''B'', \<lparr>port = 1, cost = 1\<rparr>)],
      neighbor_dvs = [(''B'', JObj [])]\<rparr>"

definition link_up_table :: "(address \<times> route_entry) list" where
  "link_up_table = [(''A'', (0, Some ''A'')), (''B'', (1, Some ''B''))]"

definition link_up_packet :: packet where
  "link_up_packet =
     \<lparr>kind = ROUTING, src_addr = ''A'', dst_addr = ''B'',
      content = Json (JObj [(''A'', JNum 0), (''B'', JNum 1)])\<rparr>"

subsection \<open>Observing outcomes and events\<close>

text \<open>The exception that left a handler, if one did.\<close>

fun raised :: "outcome \<Rightarrow> error option" where
  "raised (Inl (e, r)) = Some e"
| "raised (Inr res) = None"



text \<open>
  An advertisement with no negative cost in it, and an event that brings no negative
  cost into the router: a link-up of non-negative cost, a routing packet whose decoded
  payload has no negative cost.
\<close>

fun nonneg_json :: "json \<Rightarrow> bool" where
  "nonneg_json (JObj kvs) = list_all (\<lambda>kv. case snd kv of JNum n \<Rightarrow> 0 \<le> n | _ \<Rightarrow> True) kvs"
| "nonneg_json _ = True"

fun nonneg_event :: "event \<Rightarrow> bool" where
  "nonneg_event (NewLink prt endpoint c) = (0 \<le> c)"
| "nonneg_event (Packet prt p) =
     (is_traceroute p \<or> (case content p of Garbled \<Rightarrow> True | Json j \<Rightarrow> nonneg_json j))"
| "nonneg_event _ = True"


text \<open>
  Further inputs of the example: an advertisement of B with a negative cost, a
  routing packet of B whose payload is a JSON list, and a data packet for a
  destination.
\<close>

definition negative_advert_events :: "event list" where
  "negative_advert_events =
     [NewLink 1 ''B'' 1,
      Packet 1 \<lparr>kind = ROUTING, src_addr = ''B'', dst_addr = ''A'',
                content = Json (JObj [(''D'', JNum (- 5))])\<rparr>]"

definition non_mapping_packet :: packet where
  "non_mapping_packet =
     \<lparr>kind = ROUTING, src_addr = ''B'', dst_addr = ''A'', content = Json (JArr [])\<rparr>"

definition traceroute_to :: "address \<Rightarrow> packet" where
  "traceroute_to d = \<lparr>kind = TRACEROUTE, src_addr = ''B'', dst_addr = d, content = Garbled\<rparr>"

text \<open>
  Router A with a link to a neighbour that bears A's own address and a link to B,
  and the state that the link-down of the first hands to the recomputation: the
  entry of A for itself, whose next hop is the removed neighbour, is withdrawn.
\<close>

definition self_link_events :: "event list" where
  "self_link_events = [NewLink 1 ''A'' 1, NewLink 2 ''B'' 1]"

definition self_link_down_router :: router where
  "self_link_down_router =
     \<lparr>addr = ''A'', heartbeat_time = 100, last_time = 0,
      distance_vector = [(''A'', (INFINITY, None)), (''B'', (1, Some ''B''))],
      neighbors = [(''B'', \<lparr>port = 2, cost = 1\<rparr>)],
      neighbor_dvs = [(''B'', JObj [])]\<rparr>"

section \<open>Properties\<close>

subsection \<open>Dictionaries\<close>

lemma map_of_dict_set: "map_of (dict_set kvs k v) = (map_of kvs)(k \<mapsto> v)"
  by (induction kvs) (auto simp: fun_eq_iff)

lemma keys_dom: "set (dict_keys kvs) = dom (map_of kvs)"
  by (simp add: dict_keys_def dom_map_of_conv_image_fst)

lemma keys_dict_set: "set (dict_keys (dict_set kvs k v)) = insert k (set (dict_keys kvs))"
  by (simp add: keys_dom map_of_dict_set)

lemma distinct_dict_set:
  "distinct (dict_keys kvs) \<Longrightarrow> distinct (dict_keys (dict_set kvs k v))"
proof (induction kvs)
  case Nil
  then show ?case by (simp add: dict_keys_def)
next
  case (Cons kv kvs)
  have "set (map fst (dict_set kvs k v)) = insert k (set (map fst kvs))"
    using keys_dict_set [of kvs k v] by (simp add: dict_keys_def)
  with Cons show ?case
    by (cases kv) (auto simp: dict_keys_def)
qed

lemma map_of_dict_del: "map_of (dict_del kvs k) = (map_of kvs)(k := None)"
  by (induction kvs) (auto simp: dict_del_def fun_eq_iff)

lemma keys_dict_del: "set (dict_keys (dict_del kvs k)) = set (dict_keys kvs) - {k}"
  by (auto simp: dict_del_def dict_keys_def)

lemma distinct_dict_del: "distinct (dict_keys kvs) \<Longrightarrow> distinct (dict_keys (dict_del kvs k))"
  by (simp add: dict_del_def dict_keys_def distinct_map_filter)

lemma in_keys_iff: "k \<in> set (dict_keys kvs) \<longleftrightarrow> map_of kvs k \<noteq> None"
  by (simp add: dict_keys_def map_of_eq_None_iff)

lemma dict_eq_iff: "dict_eq a b \<longleftrightarrow> map_of a = map_of b"
proof
  assume eq: "dict_eq a b"
  show "map_of a = map_of b"
  proof
    fix k
    show "map_of a k = map_of b k"
    proof (cases "k \<in> set (dict_keys a) \<or> k \<in> set (dict_keys b)")
      case True
      with eq show ?thesis by (auto simp: dict_eq_def list_all_iff)
    next
      case False
      then have "map_of a k = None" "map_of b k = None"
        by (simp_all add: in_keys_iff)
      then show ?thesis by simp
    qed
  qed
next
  assume "map_of a = map_of b"
  then show "dict_eq a b" by (simp add: dict_eq_def list_all_iff)
qed

lemma map_of_poison:
  "distinct (dict_keys es) \<Longrightarrow>
   map_of (poison v es acc) d =
     (case map_of es d of
        None \<Rightarrow> map_of acc d
      | Some e \<Rightarrow> if snd e = Some v \<and> d \<noteq> v then Some INFINITY else map_of acc d)"
proof (induction es arbitrary: acc)
  case Nil
  then show ?case by simp
next
  case (Cons e es)
  obtain dest c nh where e: "e = (dest, (c, nh))" by (cases e) auto
  from Cons.prems have dist: "distinct (dict_keys es)" and fresh: "map_of es dest = None"
    by (auto simp: e dict_keys_def map_of_eq_None_iff)
  show ?case
    using Cons.IH [OF dist] fresh
    by (auto simp: e map_of_dict_set split: option.splits)
qed

lemma map_of_map_snd:
  "map_of (map (\<lambda>e. (fst e, f (snd e))) xs) d = map_option f (map_of xs d)"
  by (induction xs) auto

lemma map_of_get_dv_for_broadcast:
  "map_of (get_dv_for_broadcast r) d = map_option fst (map_of (distance_vector r) d)"
  unfolding get_dv_for_broadcast_def by (rule map_of_map_snd)

lemma map_of_dv_payload:
  assumes "distinct (dict_keys (distance_vector r))"
  shows "map_of (map (\<lambda>kv. (fst kv, JNum (snd kv)))
            (poison v (distance_vector r) (get_dv_for_broadcast r))) d =
         (case map_of (distance_vector r) d of
            None \<Rightarrow> None
          | Some e \<Rightarrow> Some (JNum (if snd e = Some v \<and> d \<noteq> v then INFINITY else fst e)))"
  by (simp add: map_of_map_snd map_of_poison [OF assms] map_of_get_dv_for_broadcast
      split: option.splits)


lemma example_router_run: "run (init ''A'' 100) example_events = example_router"
  by code_simp

subsection \<open>Broadcast with poisoned reverse\<close>

text \<open>
  C3. \<open>broadcast_dv\<close> sends exactly one routing packet to each current neighbour,
  on the port of that neighbour and in the order of the neighbour dictionary. The
  payload of the packet for neighbour \<open>v\<close> is a mapping with exactly the destinations
  of the routing table; a destination \<open>d \<noteq> v\<close> whose next hop is \<open>v\<close> is advertised at
  \<open>INFINITY\<close>, every other destination (also \<open>v\<close> itself) at its cost in the table.
  The hypothesis is that the routing table is a dictionary, with distinct keys, as
  it is in every state of a run (\<open>distinct_run\<close>).
\<close>

theorem broadcast_dv_poisoned_reverse:
  assumes "distinct (dict_keys (distance_vector r))"
  shows "length (broadcast_dv r) = length (neighbors r) \<and>
    (\<forall>i < length (neighbors r). \<exists>kvs.
       broadcast_dv r ! i =
         (port (snd (neighbors r ! i)),
          \<lparr>kind = ROUTING, src_addr = addr r, dst_addr = fst (neighbors r ! i),
           content = Json (JObj kvs)\<rparr>) \<and>
       (\<forall>d. map_of kvs d =
          (case map_of (distance_vector r) d of
             None \<Rightarrow> None
           | Some (c, next_hop) \<Rightarrow>
               Some (JNum (if next_hop = Some (fst (neighbors r ! i)) \<and> d \<noteq> fst (neighbors r ! i)
                           then INFINITY else c)))))"
proof (intro conjI allI impI)
  show "length (broadcast_dv r) = length (neighbors r)"
    by (simp add: broadcast_dv_def)
next
  fix i assume i: "i < length (neighbors r)"
  let ?v = "fst (neighbors r ! i)"
  let ?kvs = "map (\<lambda>kv. (fst kv, JNum (snd kv)))
                (poison ?v (distance_vector r) (get_dv_for_broadcast r))"
  have "broadcast_dv r ! i =
         (port (snd (neighbors r ! i)),
          \<lparr>kind = ROUTING, src_addr = addr r, dst_addr = ?v, content = Json (JObj ?kvs)\<rparr>)"
    using i by (simp add: broadcast_dv_def dv_packet_def json_dumps_def)
  moreover have "\<forall>d. map_of ?kvs d =
          (case map_of (distance_vector r) d of
             None \<Rightarrow> None
           | Some (c, next_hop) \<Rightarrow>
               Some (JNum (if next_hop = Some ?v \<and> d \<noteq> ?v then INFINITY else c)))"
    by (simp add: map_of_dv_payload [OF assms] split: option.splits prod.splits)
  ultimately show "\<exists>kvs.
       broadcast_dv r ! i =
         (port (snd (neighbors r ! i)),
          \<lparr>kind = ROUTING, src_addr = addr r, dst_addr = ?v, content = Json (JObj kvs)\<rparr>) \<and>
       (\<forall>d. map_of kvs d =
          (case map_of (distance_vector r) d of
             None \<Rightarrow> None
           | Some (c, next_hop) \<Rightarrow>
               Some (JNum (if next_hop = Some ?v \<and> d \<noteq> ?v then INFINITY else c))))"
    by blast
qed

theorem broadcast_dv_poisoned_reverse_witness:
  "distinct (dict_keys (distance_vector example_router)) \<and>
   length (broadcast_dv example_router) = 2 \<and>
   (\<exists>kvs. broadcast_dv example_router ! 1 =
            (2, \<lparr>kind = ROUTING, src_addr = ''A'', dst_addr = ''C'', content = Json (JObj kvs)\<rparr>) \<and>
          map_of kvs ''D'' = Some (JNum 16) \<and> map_of kvs ''C'' = Some (JNum 1) \<and>
          map_of kvs ''B'' = Some (JNum 1) \<and> map_of kvs ''E'' = None)"
proof -
  let ?r = example_router
  have d: "distinct (dict_keys (distance_vector ?r))"
    by (simp add: example_router_def dict_keys_def)
  have n: "length (neighbors ?r) = 2" "neighbors ?r ! 1 = (''C'', \<lparr>port = 2, cost = 1\<rparr>)"
    by (simp_all add: example_router_def)
  note t = broadcast_dv_poisoned_reverse [OF d]
  from t n have len: "length (broadcast_dv ?r) = 2"
    by simp
  have i: "1 < length (neighbors ?r)"
    by (simp add: n)
  from t [THEN conjunct2, rule_format, OF i]
  obtain kvs where pk: "broadcast_dv ?r ! 1 =
         (port (snd (neighbors ?r ! 1)),
          \<lparr>kind = ROUTING, src_addr = addr ?r, dst_addr = fst (neighbors ?r ! 1),
           content = Json (JObj kvs)\<rparr>)"
    and m: "\<forall>d. map_of kvs d =
          (case map_of (distance_vector ?r) d of
             None \<Rightarrow> None
           | Some (c, next_hop) \<Rightarrow>
               Some (JNum (if next_hop = Some (fst (neighbors ?r ! 1)) \<and> d \<noteq> fst (neighbors ?r ! 1)
                           then INFINITY else c)))"
    by blast
  have "map_of kvs ''D'' = Some (JNum 16)" "map_of kvs ''C'' = Some (JNum 1)"
    "map_of kvs ''B'' = Some (JNum 1)" "map_of kvs ''E'' = None"
    by (simp_all add: m n) (simp_all add: example_router_def INFINITY_def)
  moreover have "broadcast_dv ?r ! 1 =
      (2, \<lparr>kind = ROUTING, src_addr = ''A'', dst_addr = ''C'', content = Json (JObj kvs)\<rparr>)"
    using pk by (simp add: n) (simp add: example_router_def)
  ultimately show ?thesis
    using d len by blast
qed

subsection \<open>Recomputation\<close>

lemma total_cost_estimate: "total_cost r d n = Inr t \<Longrightarrow> t = estimate r n d"
  by (auto simp: total_cost_def cost_vy_def estimate_def advertisedCost_def
      split: sum.splits if_splits option.splits json.splits)

lemma relax_spec:
  "relax r d ns best = Inr best' \<Longrightarrow>
     (\<forall>n\<in>set ns. total_cost r d n = Inr (estimate r n d)) \<and>
     fst best' = Min (insert (fst best) ((\<lambda>n. estimate r n d) ` set ns)) \<and>
     (if fst best' < fst best
      then \<exists>n\<in>set ns. snd best' = Some (fst n) \<and> estimate r n d = fst best'
      else best' = best)"
proof (induction ns arbitrary: best)
  case Nil
  then show ?case by simp
next
  case (Cons n ns)
  from Cons.prems obtain t where t: "total_cost r d n = Inr t"
    by (auto split: sum.splits)
  then have te: "t = estimate r n d" by (rule total_cost_estimate)
  let ?b = "if t < fst best then (t, Some (fst n)) else best"
  from Cons.prems t have rec: "relax r d ns ?b = Inr best'"
    by (auto split: if_splits)
  note ih = Cons.IH [OF rec]
  have fin: "finite ((\<lambda>n. estimate r n d) ` set ns)" by simp
  have m: "fst best' = Min (insert (fst best) ((\<lambda>n. estimate r n d) ` set (n # ns)))"
  proof -
    have "fst ?b = min t (fst best)" by (simp add: min_def)
    with ih have "fst best' = Min (insert (min t (fst best)) ((\<lambda>n. estimate r n d) ` set ns))"
      by simp
    also have "\<dots> = Min (insert (fst best) (insert t ((\<lambda>n. estimate r n d) ` set ns)))"
      using fin by (cases "(\<lambda>n. estimate r n d) ` set ns = {}") (simp_all add: min.commute min.left_commute)
    finally show ?thesis by (simp add: te insert_commute)
  qed
  have le: "fst best' \<le> fst ?b"
    using ih by (auto split: if_splits)
  have w: "if fst best' < fst best
      then \<exists>n\<in>set (n # ns). snd best' = Some (fst n) \<and> estimate r n d = fst best'
      else best' = best"
  proof (cases "t < fst best")
    case True
    with ih te show ?thesis by (auto split: if_splits)
  next
    case False
    with ih show ?thesis by (auto split: if_splits)
  qed
  from ih t te m w show ?case by simp
qed

lemma build_spec:
  "build r ds acc = Inr nd \<Longrightarrow>
     (\<forall>d\<in>set ds. d \<noteq> addr r \<longrightarrow> (\<exists>b. relax r d (neighbors r) (INFINITY, None) = Inr b)) \<and>
     (\<forall>d. map_of nd d =
        (if d \<in> set ds \<and> d \<noteq> addr r
         then (case relax r d (neighbors r) (INFINITY, None) of
                 Inl e \<Rightarrow> None
               | Inr b \<Rightarrow> if fst b < INFINITY then Some b else map_of acc d)
         else map_of acc d))"
proof (induction ds arbitrary: acc)
  case Nil
  then show ?case by simp
next
  case (Cons dest ds)
  show ?case
  proof (cases "dest = addr r")
    case True
    with Cons.prems have "build r ds acc = Inr nd" by simp
    from Cons.IH [OF this] True show ?thesis by auto
  next
    case False
    with Cons.prems obtain b where b: "relax r dest (neighbors r) (INFINITY, None) = Inr b"
      by (auto split: sum.splits)
    show ?thesis
    proof (cases "fst b < INFINITY")
      case True
      then have mb: "(min (fst b) INFINITY, snd b) = b" by (simp add: min_def)
      from Cons.prems False b True mb have "build r ds (dict_set acc dest b) = Inr nd"
        by simp
      from Cons.IH [OF this] b True False show ?thesis
        by (auto simp: map_of_dict_set split: sum.splits)
    next
      case nlt: False
      with Cons.prems False b have "build r ds acc = Inr nd"
        by (simp add: min_def split: if_splits)
      from Cons.IH [OF this] b nlt False show ?thesis
        by (auto split: sum.splits)
    qed
  qed
qed

lemma collect_keys_set:
  "collect_keys dvs = Inr ks \<Longrightarrow> set ks = \<Union> (advertised_keys ` set dvs)"
proof (induction dvs arbitrary: ks)
  case Nil
  then show ?case by simp
next
  case (Cons dv dvs)
  then show ?case
    by (cases dv) (auto simp: advertised_keys_def split: sum.splits)
qed

lemma all_dests_candidates:
  assumes "all_dests r = Inr ds"
  shows "set ds = candidates r"
proof -
  from assms obtain ks where ks: "collect_keys (dict_values (neighbor_dvs r)) = Inr ks"
    and ds: "ds = remdups (addr r # dict_keys (neighbors r) @ ks)"
    by (auto simp: all_dests_def split: sum.splits)
  have "set ds = set (addr r # dict_keys (neighbors r) @ ks)"
    unfolding ds by (rule set_remdups)
  with collect_keys_set [OF ks] show ?thesis
    by (simp add: candidates_def)
qed

lemma newCost_le: "newCost r d \<le> INFINITY"
  by (simp add: newCost_def)

lemma new_dv_self: "new_dv r = Inr nd \<Longrightarrow> map_of nd (addr r) = Some (0, Some (addr r))"
  by (auto simp: new_dv_def split: sum.splits dest!: build_spec)

lemma new_dv_relax:
  assumes "new_dv r = Inr nd" and "d \<noteq> addr r" and "d \<in> candidates r"
  shows "\<exists>b. relax r d (neighbors r) (INFINITY, None) = Inr b \<and>
             map_of nd d = (if fst b < INFINITY then Some b else None)"
proof -
  from assms(1) obtain ds where ds: "all_dests r = Inr ds"
    and bd: "build r ds [(addr r, (0, Some (addr r)))] = Inr nd"
    by (auto simp: new_dv_def split: sum.splits)
  from all_dests_candidates [OF ds] assms(3) have mem: "d \<in> set ds" by simp
  from build_spec [OF bd] mem assms(2)
  obtain b where b: "relax r d (neighbors r) (INFINITY, None) = Inr b" by blast
  from build_spec [OF bd] have "map_of nd d =
        (if d \<in> set ds \<and> d \<noteq> addr r
         then (case relax r d (neighbors r) (INFINITY, None) of
                 Inl e \<Rightarrow> None
               | Inr b \<Rightarrow> if fst b < INFINITY then Some b
                          else map_of [(addr r, (0, Some (addr r)))] d)
         else map_of [(addr r, (0, Some (addr r)))] d)"
    by blast
  with mem assms(2) b show ?thesis by simp
qed

lemma new_dv_absent:
  assumes "new_dv r = Inr nd" and "d \<noteq> addr r" and "d \<notin> candidates r"
  shows "map_of nd d = None"
proof -
  from assms(1) obtain ds where ds: "all_dests r = Inr ds"
    and bd: "build r ds [(addr r, (0, Some (addr r)))] = Inr nd"
    by (auto simp: new_dv_def split: sum.splits)
  from all_dests_candidates [OF ds] assms(3) have mem: "d \<notin> set ds" by simp
  from build_spec [OF bd] have "map_of nd d =
        (if d \<in> set ds \<and> d \<noteq> addr r
         then (case relax r d (neighbors r) (INFINITY, None) of
                 Inl e \<Rightarrow> None
               | Inr b \<Rightarrow> if fst b < INFINITY then Some b
                          else map_of [(addr r, (0, Some (addr r)))] d)
         else map_of [(addr r, (0, Some (addr r)))] d)"
    by blast
  with mem assms(2) show ?thesis by simp
qed

lemma new_dv_entry:
  assumes "new_dv r = Inr nd" and "d \<noteq> addr r" and "d \<in> candidates r"
  shows "(\<forall>n\<in>set (neighbors r). total_cost r d n = Inr (estimate r n d)) \<and>
         (if newCost r d = INFINITY then map_of nd d = None
          else \<exists>n\<in>set (neighbors r). estimate r n d = newCost r d \<and>
                 map_of nd d = Some (newCost r d, Some (fst n)))"
proof -
  from new_dv_relax [OF assms] obtain b
    where b: "relax r d (neighbors r) (INFINITY, None) = Inr b"
    and m: "map_of nd d = (if fst b < INFINITY then Some b else None)"
    by blast
  note rs = relax_spec [OF b, unfolded fst_conv]
  from rs have tc: "\<forall>n\<in>set (neighbors r). total_cost r d n = Inr (estimate r n d)"
    by blast
  from rs have fb: "fst b = newCost r d"
    unfolding newCost_def by blast
  from rs have w: "if fst b < INFINITY
      then \<exists>n\<in>set (neighbors r). snd b = Some (fst n) \<and> estimate r n d = fst b
      else b = (INFINITY, None)"
    by blast
  show ?thesis
  proof (cases "newCost r d = INFINITY")
    case True
    with m fb tc show ?thesis by simp
  next
    case False
    with newCost_le [of r d] have lt: "fst b < INFINITY" by (simp add: fb)
    with w obtain n where n: "n \<in> set (neighbors r)" "snd b = Some (fst n)"
      "estimate r n d = fst b" by auto
    have "b = (newCost r d, Some (fst n))"
      using n fb by (cases b) simp
    with m lt n fb tc False show ?thesis by auto
  qed
qed

lemma update_dv_Inr:
  assumes "update_dv r = Inr (r', out)"
  shows "\<exists>nd. new_dv r = Inr nd \<and> map_of (distance_vector r') = map_of nd \<and>
           addr r' = addr r \<and> neighbors r' = neighbors r \<and> neighbor_dvs r' = neighbor_dvs r"
  using assms by (auto simp: update_dv_def dict_eq_iff split: sum.splits if_splits)

lemma cost_vy_cong: "neighbor_dvs r1 = neighbor_dvs r2 \<Longrightarrow> cost_vy r1 d v = cost_vy r2 d v"
  by (simp add: cost_vy_def)

lemma total_cost_cong:
  "neighbor_dvs r1 = neighbor_dvs r2 \<Longrightarrow> total_cost r1 d n = total_cost r2 d n"
  by (simp add: total_cost_def cost_vy_cong [of r1 r2])

lemma relax_cong:
  "neighbor_dvs r1 = neighbor_dvs r2 \<Longrightarrow> relax r1 d ns best = relax r2 d ns best"
  by (induction ns arbitrary: best) (simp_all add: total_cost_cong [of r1 r2] split: sum.splits)

lemma build_cong:
  assumes "addr r1 = addr r2" and "neighbors r1 = neighbors r2"
    and "neighbor_dvs r1 = neighbor_dvs r2"
  shows "build r1 ds acc = build r2 ds acc"
  using assms
  by (induction ds arbitrary: acc)
    (simp_all add: relax_cong [of r1 r2] cong: sum.case_cong if_cong)

lemma new_dv_cong:
  assumes "addr r1 = addr r2" and "neighbors r1 = neighbors r2"
    and "neighbor_dvs r1 = neighbor_dvs r2"
  shows "new_dv r1 = new_dv r2"
  using assms by (simp add: new_dv_def all_dests_def build_cong [of r1 r2] split: sum.splits)

lemma link_up_update:
  "update_dv link_up_router =
     Inr (link_up_router\<lparr>distance_vector := link_up_table\<rparr>, [(1, link_up_packet)])"
  by code_simp









text \<open>
  C4, as amended. When \<open>update_dv\<close> returns, it has computed a new table. If the new
  table differs from the previous one at some destination, the router's own included
  (an entry added, removed, or with another cost or next hop), the new table is
  committed and broadcast; otherwise the state is the same and nothing is sent. Where
  the previous table holds \<open>(0, self)\<close> for the router itself, this is the comparison
  over the other destinations.
\<close>

theorem update_dv_commit_iff_changed:
  assumes "update_dv r = Inr (r', out)"
  shows "\<exists>nd. new_dv r = Inr nd \<and>
     (if \<exists>d. map_of nd d \<noteq> map_of (distance_vector r) d
      then r' = r\<lparr>distance_vector := nd\<rparr> \<and> out = broadcast_dv r'
      else r' = r \<and> out = []) \<and>
     (map_of (distance_vector r) (addr r) = Some (0, Some (addr r)) \<longrightarrow>
        ((\<exists>d. map_of nd d \<noteq> map_of (distance_vector r) d) \<longleftrightarrow>
         (\<exists>d. d \<noteq> addr r \<and> map_of nd d \<noteq> map_of (distance_vector r) d)))"
proof -
  from assms obtain nd where nd: "new_dv r = Inr nd"
    by (auto simp: update_dv_def split: sum.splits)
  have ch: "dict_eq nd (distance_vector r) \<longleftrightarrow>
      (\<forall>d. map_of nd d = map_of (distance_vector r) d)"
    by (simp add: dict_eq_iff fun_eq_iff)
  have "if \<exists>d. map_of nd d \<noteq> map_of (distance_vector r) d
      then r' = r\<lparr>distance_vector := nd\<rparr> \<and> out = broadcast_dv r'
      else r' = r \<and> out = []"
    using assms nd by (auto simp: update_dv_def ch split: if_splits)
  moreover have "map_of (distance_vector r) (addr r) = Some (0, Some (addr r)) \<longrightarrow>
        ((\<exists>d. map_of nd d \<noteq> map_of (distance_vector r) d) \<longleftrightarrow>
         (\<exists>d. d \<noteq> addr r \<and> map_of nd d \<noteq> map_of (distance_vector r) d))"
    using new_dv_self [OF nd] by metis
  ultimately show ?thesis using nd by blast
qed

theorem update_dv_commit_iff_changed_witness:
  "update_dv link_up_router =
     Inr (link_up_router\<lparr>distance_vector := link_up_table\<rparr>, [(1, link_up_packet)]) \<and>
   new_dv link_up_router = Inr link_up_table \<and>
   map_of (distance_vector link_up_router) (addr link_up_router) =
     Some (0, Some (addr link_up_router)) \<and>
   ''B'' \<noteq> addr link_up_router \<and>
   map_of link_up_table ''B'' \<noteq> map_of (distance_vector link_up_router) ''B'' \<and>
   [(1, link_up_packet)] = broadcast_dv (link_up_router\<lparr>distance_vector := link_up_table\<rparr>)"
proof -
  from update_dv_commit_iff_changed [OF link_up_update]
  obtain nd where nd: "new_dv link_up_router = Inr nd"
    and c: "if \<exists>d. map_of nd d \<noteq> map_of (distance_vector link_up_router) d
      then link_up_router\<lparr>distance_vector := link_up_table\<rparr> =
             link_up_router\<lparr>distance_vector := nd\<rparr> \<and>
           [(1, link_up_packet)] = broadcast_dv (link_up_router\<lparr>distance_vector := link_up_table\<rparr>)
      else link_up_router\<lparr>distance_vector := link_up_table\<rparr> = link_up_router \<and>
           [(1, link_up_packet)] = ([] :: sent list)"
    by blast
  have ne: "link_up_router\<lparr>distance_vector := link_up_table\<rparr> \<noteq> link_up_router"
    by (simp add: link_up_router_def link_up_table_def)
  with c have eq: "link_up_router\<lparr>distance_vector := link_up_table\<rparr> =
             link_up_router\<lparr>distance_vector := nd\<rparr>"
    and b: "[(1, link_up_packet)] = broadcast_dv (link_up_router\<lparr>distance_vector := link_up_table\<rparr>)"
    by (auto split: if_splits)
  from eq have "nd = link_up_table"
    by (simp add: link_up_router_def)
  moreover have "map_of link_up_table ''B'' \<noteq> map_of (distance_vector link_up_router) ''B''"
    "map_of (distance_vector link_up_router) (addr link_up_router) =
       Some (0, Some (addr link_up_router))"
    "''B'' \<noteq> addr link_up_router"
    by (simp_all add: link_up_router_def link_up_table_def)
  ultimately show ?thesis using nd b link_up_update by simp
qed

text \<open>
  C4 as it is stated, with the router's own entry left out of the comparison, fails:
  the link-down of a neighbour that bears A's own address withdraws the entry of A
  for itself, and the recomputation commits and sends a packet to B although no
  entry other than A's own differs between the new table and the previous one.
\<close>

theorem update_dv_self_excluded_counterexample:
  "handle_remove_link (run (init ''A'' 100) self_link_events) 1 =
     update_dv self_link_down_router \<and>
   update_dv self_link_down_router =
     Inr (self_link_down_router\<lparr>distance_vector := link_up_table\<rparr>, [(2, link_up_packet)]) \<and>
   dict_eq (dict_del link_up_table ''A'')
     (dict_del (distance_vector self_link_down_router) ''A'')"
  by code_simp

text \<open>
  C9. Recomputation is idempotent: when \<open>update_dv\<close> has returned, a second run on
  the state it left (same neighbours, same advertisements) returns the same state,
  with the same table, and sends nothing.
\<close>

theorem update_dv_idempotent:
  assumes "update_dv r = Inr (r', out)"
  shows "update_dv r' = Inr (r', [])"
proof -
  from update_dv_Inr [OF assms] obtain nd where nd: "new_dv r = Inr nd"
    and eq: "map_of (distance_vector r') = map_of nd"
    and same: "addr r' = addr r" "neighbors r' = neighbors r" "neighbor_dvs r' = neighbor_dvs r"
    by blast
  from new_dv_cong [OF same] nd have "new_dv r' = Inr nd" by simp
  moreover have "dict_eq nd (distance_vector r')"
    by (simp add: dict_eq_iff eq)
  ultimately show ?thesis by (simp add: update_dv_def)
qed

theorem update_dv_idempotent_witness:
  "update_dv link_up_router =
     Inr (link_up_router\<lparr>distance_vector := link_up_table\<rparr>, [(1, link_up_packet)]) \<and>
   update_dv (link_up_router\<lparr>distance_vector := link_up_table\<rparr>) =
     Inr (link_up_router\<lparr>distance_vector := link_up_table\<rparr>, [])"
  using update_dv_idempotent [OF link_up_update] link_up_update by simp

subsection \<open>Invariants of a run\<close>

text \<open>
  A property of the state holds after every handler, returning or raising, when the
  recomputation, the three changes the handlers make before it, and the tick of the
  clock keep it.
\<close>

lemma new_dv_other:
  assumes "new_dv r = Inr nd" and "d \<noteq> addr r" and "map_of nd d = Some (c, nh)"
  shows "c = newCost r d \<and> c < INFINITY \<and>
         (\<exists>n\<in>set (neighbors r). nh = Some (fst n) \<and> estimate r n d = c)"
proof -
  have cand: "d \<in> candidates r"
    using new_dv_absent [OF assms(1,2)] assms(3) by auto
  note e = new_dv_entry [OF assms(1,2) cand]
  from e assms(3) have ne: "newCost r d \<noteq> INFINITY" by auto
  with newCost_le [of r d] have lt: "newCost r d < INFINITY" by simp
  from e ne assms(3) lt show ?thesis by auto
qed

lemma update_dv_cases:
  obtains (same) "state_of (update_dv r) = r"
  | (commit) nd where "new_dv r = Inr nd" "state_of (update_dv r) = r\<lparr>distance_vector := nd\<rparr>"
proof (cases "new_dv r")
  case (Inl e)
  then have "state_of (update_dv r) = r" by (simp add: update_dv_def)
  then show ?thesis by (rule same)
next
  case (Inr nd)
  show ?thesis
  proof (cases "dict_eq nd (distance_vector r)")
    case True
    with Inr have "state_of (update_dv r) = r" by (simp add: update_dv_def)
    then show ?thesis by (rule same)
  next
    case False
    with Inr have "state_of (update_dv r) = r\<lparr>distance_vector := nd\<rparr>"
      by (simp add: update_dv_def)
    with Inr show ?thesis by (rule commit)
  qed
qed

lemma update_dv_preserves:
  assumes "P r" and "\<And>nd. new_dv r = Inr nd \<Longrightarrow> P (r\<lparr>distance_vector := nd\<rparr>)"
  shows "P (state_of (update_dv r))"
  by (cases r rule: update_dv_cases) (simp_all add: assms)

lemma state_of_catch:
  "state_of (case x of Inl (e, r') \<Rightarrow> (if caught e then Inr (r', []) else Inl (e, r'))
                     | Inr res \<Rightarrow> Inr res) = state_of x"
  by (cases x) (auto split: prod.splits)

lemma handle_preserves:
  assumes P: "P r"
    and upd: "\<And>r0 nd. P r0 \<Longrightarrow> new_dv r0 = Inr nd \<Longrightarrow> P (r0\<lparr>distance_vector := nd\<rparr>)"
    and adv: "\<And>prt p j. ev = Packet prt p \<Longrightarrow> \<not> is_traceroute p \<Longrightarrow> content p = Json j \<Longrightarrow>
        src_addr p \<in> set (dict_keys (neighbors r)) \<Longrightarrow>
        P (r\<lparr>neighbor_dvs := dict_set (neighbor_dvs r) (src_addr p) j\<rparr>)"
    and up: "\<And>prt v c. ev = NewLink prt v c \<Longrightarrow>
        P (r\<lparr>neighbors := dict_set (neighbors r) v \<lparr>port = prt, cost = c\<rparr>,
             neighbor_dvs := dict_set (neighbor_dvs r) v (JObj [])\<rparr>)"
    and down: "\<And>prt e. ev = RemoveLink prt \<Longrightarrow> find_endpoint (neighbors r) prt = Some e \<Longrightarrow>
        e \<noteq> [] \<Longrightarrow>
        P (r\<lparr>neighbors := dict_del (neighbors r) e,
             neighbor_dvs := dict_del (neighbor_dvs r) e,
             distance_vector := withdraw e (distance_vector r)\<rparr>)"
    and tick: "\<And>t. P (r\<lparr>last_time := t\<rparr>)"
  shows "P (state_of (handle r ev))"
proof (cases ev)
  case (Packet prt p)
  show ?thesis
  proof (cases "is_traceroute p")
    case True
    with P Packet show ?thesis
      by (simp add: handle_packet_def split: option.splits prod.splits)
  next
    case False
    show ?thesis
    proof (cases "content p")
      case Garbled
      with P Packet False show ?thesis
        by (simp add: handle_packet_def json_loads_def caught_def)
    next
      case (Json j)
      show ?thesis
      proof (cases "src_addr p \<in> set (dict_keys (neighbors r))")
        case True
        note P0 = adv [OF Packet False Json True]
        have "P (state_of (update_dv (r\<lparr>neighbor_dvs := dict_set (neighbor_dvs r) (src_addr p) j\<rparr>)))"
          by (rule update_dv_preserves [where P = P, OF P0]) (erule upd [OF P0])
        with Packet False Json True show ?thesis
          by (simp add: handle_packet_def json_loads_def state_of_catch)
      next
        case nb: False
        with P Packet False Json show ?thesis
          by (simp add: handle_packet_def json_loads_def)
      qed
    qed
  qed
next
  case (NewLink prt v c)
  note P0 = up [OF NewLink]
  have "P (state_of (update_dv (r\<lparr>neighbors := dict_set (neighbors r) v \<lparr>port = prt, cost = c\<rparr>,
             neighbor_dvs := dict_set (neighbor_dvs r) v (JObj [])\<rparr>)))"
    by (rule update_dv_preserves [where P = P, OF P0]) (erule upd [OF P0])
  with NewLink show ?thesis
    by (simp add: handle_new_link_def)
next
  case (RemoveLink prt)
  show ?thesis
  proof (cases "find_endpoint (neighbors r) prt")
    case None
    with P RemoveLink show ?thesis by (simp add: handle_remove_link_def)
  next
    case (Some e)
    show ?thesis
    proof (cases "e = []")
      case True
      with P RemoveLink Some show ?thesis by (simp add: handle_remove_link_def)
    next
      case False
      note P0 = down [OF RemoveLink Some False]
      have "P (state_of (update_dv (r\<lparr>neighbors := dict_del (neighbors r) e,
             neighbor_dvs := dict_del (neighbor_dvs r) e,
             distance_vector := withdraw e (distance_vector r)\<rparr>)))"
        by (rule update_dv_preserves [where P = P, OF P0]) (erule upd [OF P0])
      with RemoveLink Some False show ?thesis
        by (simp add: handle_remove_link_def)
    qed
  qed
next
  case (Time t)
  with P tick [of t] show ?thesis
    by (simp add: handle_time_def)
qed

lemma map_of_withdraw:
  "map_of (withdraw e dv) d =
     map_option (\<lambda>x. if snd x = Some e then (INFINITY, None) else x) (map_of dv d)"
  by (induction dv) (auto simp: withdraw_def)

lemma addr_update_dv [simp]: "addr (state_of (update_dv r)) = addr r"
  by (cases r rule: update_dv_cases) simp_all

lemma addr_handle [simp]: "addr (state_of (handle r ev)) = addr r"
  by (rule handle_preserves [where P = "\<lambda>r'. addr r' = addr r"]) simp_all

lemma addr_run [simp]: "addr (run r evs) = addr r"
  by (induction evs arbitrary: r) simp_all

lemma run_preserves:
  assumes "P r" and "\<And>r ev. P r \<Longrightarrow> ev \<in> set evs \<Longrightarrow> P (state_of (handle r ev))"
  shows "P (run r evs)"
  using assms by (induction evs arbitrary: r) simp_all

lemma set_dict_set: "set (dict_set kvs k v) \<subseteq> insert (k, v) (set kvs)"
  by (induction kvs) (auto split: if_splits)

lemma set_dict_del: "set (dict_del kvs k) \<subseteq> set kvs"
  by (auto simp: dict_del_def)

lemma hop_step:
  assumes "\<forall>d c nh. d \<noteq> addr r \<longrightarrow> map_of (distance_vector r) d = Some (c, nh) \<longrightarrow> c < INFINITY \<longrightarrow>
             (\<exists>v. nh = Some v \<and> v \<in> set (dict_keys (neighbors r)))"
  shows "\<forall>d c nh. d \<noteq> addr (state_of (handle r ev)) \<longrightarrow>
           map_of (distance_vector (state_of (handle r ev))) d = Some (c, nh) \<longrightarrow> c < INFINITY \<longrightarrow>
             (\<exists>v. nh = Some v \<and> v \<in> set (dict_keys (neighbors (state_of (handle r ev)))))"
  using assms
proof (rule handle_preserves)
  fix r0 :: router and nd
  assume nd: "new_dv r0 = Inr nd"
  show "\<forall>d c nh. d \<noteq> addr (r0\<lparr>distance_vector := nd\<rparr>) \<longrightarrow>
           map_of (distance_vector (r0\<lparr>distance_vector := nd\<rparr>)) d = Some (c, nh) \<longrightarrow> c < INFINITY \<longrightarrow>
             (\<exists>v. nh = Some v \<and> v \<in> set (dict_keys (neighbors (r0\<lparr>distance_vector := nd\<rparr>))))"
  proof (intro allI impI)
    fix d c nh
    assume "d \<noteq> addr (r0\<lparr>distance_vector := nd\<rparr>)"
      and "map_of (distance_vector (r0\<lparr>distance_vector := nd\<rparr>)) d = Some (c, nh)"
    then have "d \<noteq> addr r0" "map_of nd d = Some (c, nh)" by simp_all
    from new_dv_other [OF nd this] obtain n where "n \<in> set (neighbors r0)" "nh = Some (fst n)"
      by blast
    then show "\<exists>v. nh = Some v \<and> v \<in> set (dict_keys (neighbors (r0\<lparr>distance_vector := nd\<rparr>)))"
      by (simp add: dict_keys_def)
  qed
next
  fix prt :: int and p :: packet and j :: json
  show "\<forall>d c nh. d \<noteq> addr (r\<lparr>neighbor_dvs := dict_set (neighbor_dvs r) (src_addr p) j\<rparr>) \<longrightarrow>
           map_of (distance_vector (r\<lparr>neighbor_dvs := dict_set (neighbor_dvs r) (src_addr p) j\<rparr>)) d
             = Some (c, nh) \<longrightarrow> c < INFINITY \<longrightarrow>
             (\<exists>v. nh = Some v \<and>
                  v \<in> set (dict_keys (neighbors (r\<lparr>neighbor_dvs := dict_set (neighbor_dvs r) (src_addr p) j\<rparr>))))"
    using assms by simp
next
  fix prt v c
  let ?r = "r\<lparr>neighbors := dict_set (neighbors r) v \<lparr>port = prt, cost = c\<rparr>,
             neighbor_dvs := dict_set (neighbor_dvs r) v (JObj [])\<rparr>"
  show "\<forall>d c nh. d \<noteq> addr ?r \<longrightarrow> map_of (distance_vector ?r) d = Some (c, nh) \<longrightarrow> c < INFINITY \<longrightarrow>
             (\<exists>v. nh = Some v \<and> v \<in> set (dict_keys (neighbors ?r)))"
  proof (intro allI impI)
    fix d c' nh
    assume "d \<noteq> addr ?r" and "map_of (distance_vector ?r) d = Some (c', nh)" and "c' < INFINITY"
    then have "d \<noteq> addr r" "map_of (distance_vector r) d = Some (c', nh)" "c' < INFINITY"
      by simp_all
    with assms obtain w where "nh = Some w" "w \<in> set (dict_keys (neighbors r))"
      by blast
    then show "\<exists>v. nh = Some v \<and> v \<in> set (dict_keys (neighbors ?r))"
      by (simp add: keys_dict_set)
  qed
next
  fix prt e
  let ?r = "r\<lparr>neighbors := dict_del (neighbors r) e,
             neighbor_dvs := dict_del (neighbor_dvs r) e,
             distance_vector := withdraw e (distance_vector r)\<rparr>"
  show "\<forall>d c nh. d \<noteq> addr ?r \<longrightarrow> map_of (distance_vector ?r) d = Some (c, nh) \<longrightarrow> c < INFINITY \<longrightarrow>
             (\<exists>v. nh = Some v \<and> v \<in> set (dict_keys (neighbors ?r)))"
  proof (intro allI impI)
    fix d c nh
    assume d: "d \<noteq> addr ?r" and m: "map_of (distance_vector ?r) d = Some (c, nh)"
      and c: "c < INFINITY"
    from m obtain x where x: "map_of (distance_vector r) d = Some x"
      and cx: "(c, nh) = (if snd x = Some e then (INFINITY, None) else x)"
      by (auto simp: map_of_withdraw)
    from cx c have ne: "snd x \<noteq> Some e" and xe: "x = (c, nh)"
      by (auto split: if_splits)
    from d have "d \<noteq> addr r" by simp
    with assms x xe c obtain v where "nh = Some v" "v \<in> set (dict_keys (neighbors r))"
      by blast
    with ne xe show "\<exists>v. nh = Some v \<and> v \<in> set (dict_keys (neighbors ?r))"
      by (simp add: keys_dict_del)
  qed
next
  fix t
  show "\<forall>d c nh. d \<noteq> addr (r\<lparr>last_time := t\<rparr>) \<longrightarrow>
           map_of (distance_vector (r\<lparr>last_time := t\<rparr>)) d = Some (c, nh) \<longrightarrow> c < INFINITY \<longrightarrow>
             (\<exists>v. nh = Some v \<and> v \<in> set (dict_keys (neighbors (r\<lparr>last_time := t\<rparr>))))"
    using assms by simp
qed

lemma hop_run:
  assumes "d \<noteq> a" and "map_of (distance_vector (run (init a hb) evs)) d = Some (c, nh)"
    and "c < INFINITY"
  shows "\<exists>v. nh = Some v \<and> v \<in> set (dict_keys (neighbors (run (init a hb) evs)))"
proof -
  have inv: "\<forall>d c nh. d \<noteq> addr (run (init a hb) evs) \<longrightarrow>
           map_of (distance_vector (run (init a hb) evs)) d = Some (c, nh) \<longrightarrow> c < INFINITY \<longrightarrow>
             (\<exists>v. nh = Some v \<and> v \<in> set (dict_keys (neighbors (run (init a hb) evs))))"
    by (rule run_preserves) (simp add: init_def, rule hop_step)
  have "d \<noteq> addr (run (init a hb) evs)"
    using assms(1) by (simp add: init_def)
  from inv [rule_format, OF this assms(2,3)] show ?thesis .
qed

lemma bounded_step:
  assumes "\<forall>d c nh. map_of (distance_vector r) d = Some (c, nh) \<longrightarrow> c \<le> INFINITY"
  shows "\<forall>d c nh. map_of (distance_vector (state_of (handle r ev))) d = Some (c, nh) \<longrightarrow> c \<le> INFINITY"
  using assms
proof (rule handle_preserves)
  fix r0 :: router and nd
  assume nd: "new_dv r0 = Inr nd"
  show "\<forall>d c nh. map_of (distance_vector (r0\<lparr>distance_vector := nd\<rparr>)) d = Some (c, nh) \<longrightarrow> c \<le> INFINITY"
  proof (intro allI impI)
    fix d c nh
    assume "map_of (distance_vector (r0\<lparr>distance_vector := nd\<rparr>)) d = Some (c, nh)"
    then have m: "map_of nd d = Some (c, nh)" by simp
    show "c \<le> INFINITY"
    proof (cases "d = addr r0")
      case True
      with new_dv_self [OF nd] m show ?thesis by (simp add: INFINITY_def)
    next
      case False
      from new_dv_other [OF nd False m] show ?thesis by simp
    qed
  qed
next
  fix prt e
  show "\<forall>d c nh. map_of (distance_vector (r\<lparr>neighbors := dict_del (neighbors r) e,
             neighbor_dvs := dict_del (neighbor_dvs r) e,
             distance_vector := withdraw e (distance_vector r)\<rparr>)) d = Some (c, nh) \<longrightarrow> c \<le> INFINITY"
    using assms by (auto simp: map_of_withdraw split: if_splits)
qed (use assms in simp_all)

lemma bounded_run:
  assumes "map_of (distance_vector (run (init a hb) evs)) d = Some (c, nh)"
  shows "c \<le> INFINITY"
proof -
  have inv: "\<forall>d c nh. map_of (distance_vector (run (init a hb) evs)) d = Some (c, nh) \<longrightarrow> c \<le> INFINITY"
    by (rule run_preserves) (simp add: init_def INFINITY_def, rule bounded_step)
  from inv [rule_format, OF assms] show ?thesis .
qed

lemma self_step:
  assumes "map_of (distance_vector r) (addr r) = Some (0, Some (addr r)) \<or>
           map_of (distance_vector r) (addr r) = Some (INFINITY, None)"
  shows "map_of (distance_vector (state_of (handle r ev))) (addr (state_of (handle r ev))) =
           Some (0, Some (addr (state_of (handle r ev)))) \<or>
         map_of (distance_vector (state_of (handle r ev))) (addr (state_of (handle r ev))) =
           Some (INFINITY, None)"
  using assms
proof (rule handle_preserves)
  fix r0 :: router and nd
  assume nd: "new_dv r0 = Inr nd"
  show "map_of (distance_vector (r0\<lparr>distance_vector := nd\<rparr>)) (addr (r0\<lparr>distance_vector := nd\<rparr>)) =
           Some (0, Some (addr (r0\<lparr>distance_vector := nd\<rparr>))) \<or>
         map_of (distance_vector (r0\<lparr>distance_vector := nd\<rparr>)) (addr (r0\<lparr>distance_vector := nd\<rparr>)) =
           Some (INFINITY, None)"
    using new_dv_self [OF nd] by simp
next
  fix prt e
  let ?r = "r\<lparr>neighbors := dict_del (neighbors r) e,
             neighbor_dvs := dict_del (neighbor_dvs r) e,
             distance_vector := withdraw e (distance_vector r)\<rparr>"
  have "map_of (withdraw e (distance_vector r)) (addr r) = Some (0, Some (addr r)) \<or>
        map_of (withdraw e (distance_vector r)) (addr r) = Some (INFINITY, None)"
    using assms by (cases "addr r = e") (auto simp: map_of_withdraw)
  then show "map_of (distance_vector ?r) (addr ?r) = Some (0, Some (addr ?r)) \<or>
        map_of (distance_vector ?r) (addr ?r) = Some (INFINITY, None)"
    by simp
qed (use assms in simp_all)

lemma self_run:
  "map_of (distance_vector (run (init a hb) evs)) a = Some (0, Some a) \<or>
   map_of (distance_vector (run (init a hb) evs)) a = Some (INFINITY, None)"
proof -
  have "map_of (distance_vector (run (init a hb) evs)) (addr (run (init a hb) evs)) =
          Some (0, Some (addr (run (init a hb) evs))) \<or>
        map_of (distance_vector (run (init a hb) evs)) (addr (run (init a hb) evs)) =
          Some (INFINITY, None)"
    by (rule run_preserves) (simp add: init_def, rule self_step)
  then show ?thesis by (simp add: init_def)
qed

lemma advertisedCost_nonneg:
  assumes "\<forall>kv\<in>set (neighbor_dvs r). nonneg_json (snd kv)"
  shows "0 \<le> advertisedCost r v d"
proof (cases "d = v")
  case True
  then show ?thesis by (simp add: advertisedCost_def)
next
  case False
  show ?thesis
  proof (cases "map_of (neighbor_dvs r) v")
    case None
    with False show ?thesis by (simp add: advertisedCost_def INFINITY_def)
  next
    case (Some dv)
    then have "(v, dv) \<in> set (neighbor_dvs r)" by (rule map_of_SomeD)
    with assms have nn: "nonneg_json dv" by auto
    show ?thesis
    proof (cases dv)
      case (JObj kvs)
      show ?thesis
      proof (cases "map_of kvs d")
        case None
        with False Some JObj show ?thesis by (simp add: advertisedCost_def INFINITY_def)
      next
        case (Some j)
        then have "(d, j) \<in> set kvs" by (rule map_of_SomeD)
        with nn JObj have "case j of JNum n \<Rightarrow> 0 \<le> n | _ \<Rightarrow> True"
          by (auto simp: list_all_iff)
        with False \<open>map_of (neighbor_dvs r) v = Some dv\<close> JObj Some show ?thesis
          by (cases j) (simp_all add: advertisedCost_def INFINITY_def)
      qed
    qed (use False Some in \<open>simp_all add: advertisedCost_def INFINITY_def\<close>)
  qed
qed

lemma newCost_nonneg:
  assumes "\<forall>n\<in>set (neighbors r). 0 \<le> cost (snd n)"
    and "\<forall>kv\<in>set (neighbor_dvs r). nonneg_json (snd kv)"
  shows "0 \<le> newCost r d"
proof -
  have "\<forall>n\<in>set (neighbors r). 0 \<le> estimate r n d"
    using assms(1) advertisedCost_nonneg [OF assms(2)] by (simp add: estimate_def)
  then show ?thesis
    by (simp add: newCost_def INFINITY_def)
qed

lemma nonneg_step:
  assumes "(\<forall>n\<in>set (neighbors r). 0 \<le> cost (snd n)) \<and>
           (\<forall>kv\<in>set (neighbor_dvs r). nonneg_json (snd kv)) \<and>
           (\<forall>d c nh. map_of (distance_vector r) d = Some (c, nh) \<longrightarrow> 0 \<le> c)"
    and ev: "nonneg_event ev"
  shows "(\<forall>n\<in>set (neighbors (state_of (handle r ev))). 0 \<le> cost (snd n)) \<and>
         (\<forall>kv\<in>set (neighbor_dvs (state_of (handle r ev))). nonneg_json (snd kv)) \<and>
         (\<forall>d c nh. map_of (distance_vector (state_of (handle r ev))) d = Some (c, nh) \<longrightarrow> 0 \<le> c)"
  using assms(1)
proof (rule handle_preserves)
  fix r0 :: router and nd
  assume P0: "(\<forall>n\<in>set (neighbors r0). 0 \<le> cost (snd n)) \<and>
           (\<forall>kv\<in>set (neighbor_dvs r0). nonneg_json (snd kv)) \<and>
           (\<forall>d c nh. map_of (distance_vector r0) d = Some (c, nh) \<longrightarrow> 0 \<le> c)"
    and nd: "new_dv r0 = Inr nd"
  have "\<forall>d c nh. map_of nd d = Some (c, nh) \<longrightarrow> 0 \<le> c"
  proof (intro allI impI)
    fix d c nh
    assume m: "map_of nd d = Some (c, nh)"
    show "0 \<le> c"
    proof (cases "d = addr r0")
      case True
      with new_dv_self [OF nd] m show ?thesis by simp
    next
      case False
      from new_dv_other [OF nd False m] have "c = newCost r0 d" by simp
      with newCost_nonneg [of r0 d] P0 show ?thesis by simp
    qed
  qed
  with P0 show "(\<forall>n\<in>set (neighbors (r0\<lparr>distance_vector := nd\<rparr>)). 0 \<le> cost (snd n)) \<and>
         (\<forall>kv\<in>set (neighbor_dvs (r0\<lparr>distance_vector := nd\<rparr>)). nonneg_json (snd kv)) \<and>
         (\<forall>d c nh. map_of (distance_vector (r0\<lparr>distance_vector := nd\<rparr>)) d = Some (c, nh) \<longrightarrow> 0 \<le> c)"
    by simp
next
  fix prt :: int and p :: packet and j :: json
  assume "ev = Packet prt p" "\<not> is_traceroute p" "content p = Json j"
  with ev have j: "nonneg_json j" by simp
  let ?r = "r\<lparr>neighbor_dvs := dict_set (neighbor_dvs r) (src_addr p) j\<rparr>"
  have "\<forall>kv\<in>set (neighbor_dvs ?r). nonneg_json (snd kv)"
    using set_dict_set [of "neighbor_dvs r" "src_addr p" j] assms(1) j by auto
  with assms(1) show "(\<forall>n\<in>set (neighbors ?r). 0 \<le> cost (snd n)) \<and>
         (\<forall>kv\<in>set (neighbor_dvs ?r). nonneg_json (snd kv)) \<and>
         (\<forall>d c nh. map_of (distance_vector ?r) d = Some (c, nh) \<longrightarrow> 0 \<le> c)"
    by simp
next
  fix prt v c
  assume "ev = NewLink prt v c"
  with ev have c: "0 \<le> c" by simp
  let ?r = "r\<lparr>neighbors := dict_set (neighbors r) v \<lparr>port = prt, cost = c\<rparr>,
             neighbor_dvs := dict_set (neighbor_dvs r) v (JObj [])\<rparr>"
  have "\<forall>kv\<in>set (neighbor_dvs ?r). nonneg_json (snd kv)"
    using set_dict_set [of "neighbor_dvs r" v "JObj []"] assms(1) by auto
  moreover have "\<forall>n\<in>set (neighbors ?r). 0 \<le> cost (snd n)"
    using set_dict_set [of "neighbors r" v "\<lparr>port = prt, cost = c\<rparr>"] assms(1) c by auto
  ultimately show "(\<forall>n\<in>set (neighbors ?r). 0 \<le> cost (snd n)) \<and>
         (\<forall>kv\<in>set (neighbor_dvs ?r). nonneg_json (snd kv)) \<and>
         (\<forall>d c nh. map_of (distance_vector ?r) d = Some (c, nh) \<longrightarrow> 0 \<le> c)"
    using assms(1) by simp
next
  fix prt e
  let ?r = "r\<lparr>neighbors := dict_del (neighbors r) e,
             neighbor_dvs := dict_del (neighbor_dvs r) e,
             distance_vector := withdraw e (distance_vector r)\<rparr>"
  have "\<forall>kv\<in>set (neighbor_dvs ?r). nonneg_json (snd kv)"
    using set_dict_del [of "neighbor_dvs r" e] assms(1) by auto
  moreover have "\<forall>n\<in>set (neighbors ?r). 0 \<le> cost (snd n)"
    using set_dict_del [of "neighbors r" e] assms(1) by auto
  moreover have "\<forall>d c nh. map_of (distance_vector ?r) d = Some (c, nh) \<longrightarrow> 0 \<le> c"
  proof (intro allI impI)
    fix d c nh
    assume "map_of (distance_vector ?r) d = Some (c, nh)"
    then obtain x where x: "map_of (distance_vector r) d = Some x"
      and cx: "(c, nh) = (if snd x = Some e then (INFINITY, None) else x)"
      by (auto simp: map_of_withdraw)
    from x have "map_of (distance_vector r) d = Some (fst x, snd x)" by simp
    with assms(1) have "0 \<le> fst x" by blast
    with cx show "0 \<le> c"
      by (cases "snd x = Some e") (auto simp: INFINITY_def)
  qed
  ultimately show "(\<forall>n\<in>set (neighbors ?r). 0 \<le> cost (snd n)) \<and>
         (\<forall>kv\<in>set (neighbor_dvs ?r). nonneg_json (snd kv)) \<and>
         (\<forall>d c nh. map_of (distance_vector ?r) d = Some (c, nh) \<longrightarrow> 0 \<le> c)"
    by blast
next
  fix t
  show "(\<forall>n\<in>set (neighbors (r\<lparr>last_time := t\<rparr>)). 0 \<le> cost (snd n)) \<and>
         (\<forall>kv\<in>set (neighbor_dvs (r\<lparr>last_time := t\<rparr>)). nonneg_json (snd kv)) \<and>
         (\<forall>d c nh. map_of (distance_vector (r\<lparr>last_time := t\<rparr>)) d = Some (c, nh) \<longrightarrow> 0 \<le> c)"
    using assms(1) by simp
qed

lemma nonneg_run:
  assumes "list_all nonneg_event evs"
    and "map_of (distance_vector (run (init a hb) evs)) d = Some (c, nh)"
  shows "0 \<le> c"
proof -
  have inv: "(\<forall>n\<in>set (neighbors (run (init a hb) evs)). 0 \<le> cost (snd n)) \<and>
         (\<forall>kv\<in>set (neighbor_dvs (run (init a hb) evs)). nonneg_json (snd kv)) \<and>
         (\<forall>d c nh. map_of (distance_vector (run (init a hb) evs)) d = Some (c, nh) \<longrightarrow> 0 \<le> c)"
  proof (rule run_preserves)
    show "(\<forall>n\<in>set (neighbors (init a hb)). 0 \<le> cost (snd n)) \<and>
         (\<forall>kv\<in>set (neighbor_dvs (init a hb)). nonneg_json (snd kv)) \<and>
         (\<forall>d c nh. map_of (distance_vector (init a hb)) d = Some (c, nh) \<longrightarrow> 0 \<le> c)"
      by (simp add: init_def)
  next
    fix r :: router and ev
    assume "(\<forall>n\<in>set (neighbors r). 0 \<le> cost (snd n)) \<and>
           (\<forall>kv\<in>set (neighbor_dvs r). nonneg_json (snd kv)) \<and>
           (\<forall>d c nh. map_of (distance_vector r) d = Some (c, nh) \<longrightarrow> 0 \<le> c)"
      and "ev \<in> set evs"
    moreover from this assms(1) have "nonneg_event ev" by (simp add: list_all_iff)
    ultimately show "(\<forall>n\<in>set (neighbors (state_of (handle r ev))). 0 \<le> cost (snd n)) \<and>
         (\<forall>kv\<in>set (neighbor_dvs (state_of (handle r ev))). nonneg_json (snd kv)) \<and>
         (\<forall>d c nh. map_of (distance_vector (state_of (handle r ev))) d = Some (c, nh) \<longrightarrow> 0 \<le> c)"
      by (intro nonneg_step)
  qed
  from inv assms(2) show ?thesis by blast
qed

lemma remove_link_state:
  assumes "find_endpoint (neighbors r) prt = Some e" and "e \<noteq> []"
  shows "state_of (handle_remove_link r prt) =
           state_of (update_dv (r\<lparr>neighbors := dict_del (neighbors r) e,
             neighbor_dvs := dict_del (neighbor_dvs r) e,
             distance_vector := withdraw e (distance_vector r)\<rparr>))"
  using assms by (simp add: handle_remove_link_def)

lemma remove_link_no_hop:
  assumes "find_endpoint (neighbors r) prt = Some e" and "e \<noteq> []" and "d \<noteq> addr r"
  shows "e \<notin> set (dict_keys (neighbors (state_of (handle_remove_link r prt)))) \<and>
         map_of (distance_vector (state_of (handle_remove_link r prt))) d \<noteq> Some (c, Some e)"
proof -
  let ?r0 = "r\<lparr>neighbors := dict_del (neighbors r) e,
             neighbor_dvs := dict_del (neighbor_dvs r) e,
             distance_vector := withdraw e (distance_vector r)\<rparr>"
  have gone: "e \<notin> set (dict_keys (neighbors ?r0))"
    by (simp add: keys_dict_del)
  have wd: "map_of (distance_vector ?r0) d \<noteq> Some (c, Some e)"
    by (auto simp: map_of_withdraw split: if_splits)
  have "e \<notin> set (dict_keys (neighbors (state_of (update_dv ?r0)))) \<and>
        map_of (distance_vector (state_of (update_dv ?r0))) d \<noteq> Some (c, Some e)"
  proof (cases ?r0 rule: update_dv_cases)
    case same
    with gone wd show ?thesis by simp
  next
    case (commit nd)
    have "map_of nd d \<noteq> Some (c, Some e)"
    proof
      assume m: "map_of nd d = Some (c, Some e)"
      from assms(3) have "d \<noteq> addr ?r0" by simp
      from new_dv_other [OF commit(1) this m]
      obtain n where "n \<in> set (neighbors ?r0)" "Some e = Some (fst n)" by blast
      then have "e \<in> set (dict_keys (neighbors ?r0))"
        by (auto simp: dict_keys_def)
      with gone show False by contradiction
    qed
    with commit(2) gone show ?thesis by simp
  qed
  with remove_link_state [OF assms(1,2)] show ?thesis by simp
qed

lemma remove_link_withdraws:
  assumes "find_endpoint (neighbors r) prt = Some e" and "e \<noteq> []"
  shows "handle_remove_link r prt =
           update_dv (r\<lparr>neighbors := dict_del (neighbors r) e,
             neighbor_dvs := dict_del (neighbor_dvs r) e,
             distance_vector := withdraw e (distance_vector r)\<rparr>) \<and>
         map_of (withdraw e (distance_vector r)) d =
           (case map_of (distance_vector r) d of
              None \<Rightarrow> None
            | Some (c, nh) \<Rightarrow> if nh = Some e then Some (INFINITY, None) else Some (c, nh))"
  using assms
  by (auto simp: handle_remove_link_def map_of_withdraw split: option.splits)

lemma remove_link_example:
  "find_endpoint (neighbors example_router) 2 = Some ''C''"
  by (simp add: example_router_def)

text \<open>The routing table stays a dictionary: its keys are distinct.\<close>

lemma keys_withdraw: "dict_keys (withdraw e dv) = dict_keys dv"
  by (induction dv) (simp_all add: withdraw_def dict_keys_def)

lemma build_distinct:
  "distinct (dict_keys acc) \<Longrightarrow> build r ds acc = Inr nd \<Longrightarrow> distinct (dict_keys nd)"
proof (induction ds arbitrary: acc)
  case Nil
  then show ?case by simp
next
  case (Cons dest ds)
  from Cons.prems(2) show ?case
    by (auto split: if_splits sum.splits
        intro: Cons.IH [OF Cons.prems(1)] Cons.IH [OF distinct_dict_set [OF Cons.prems(1)]])
qed

lemma new_dv_distinct:
  assumes "new_dv r = Inr nd"
  shows "distinct (dict_keys nd)"
proof -
  from assms obtain ds where "build r ds [(addr r, (0, Some (addr r)))] = Inr nd"
    by (auto simp: new_dv_def split: sum.splits)
  moreover have "distinct (dict_keys [(addr r, (0 :: int, Some (addr r)))])"
    by (simp add: dict_keys_def)
  ultimately show ?thesis by (rule build_distinct [rotated])
qed

lemma distinct_step:
  assumes "distinct (dict_keys (distance_vector r))"
  shows "distinct (dict_keys (distance_vector (state_of (handle r ev))))"
  using assms
proof (rule handle_preserves)
  fix r0 :: router and nd
  assume "new_dv r0 = Inr nd"
  then show "distinct (dict_keys (distance_vector (r0\<lparr>distance_vector := nd\<rparr>)))"
    by (simp add: new_dv_distinct)
qed (use assms in \<open>simp_all add: keys_withdraw\<close>)

lemma distinct_run: "distinct (dict_keys (distance_vector (run (init a hb) evs)))"
  by (rule run_preserves) (simp add: init_def dict_keys_def, rule distinct_step)

subsection \<open>Next hops are live neighbours\<close>

text \<open>
  C5, as amended. After every sequence of events, every destination of the routing
  table other than the router's own address whose cost is below \<open>INFINITY\<close> has a
  next hop that is a key of the neighbour dictionary. After a link-down that removes
  the neighbour \<open>e\<close>, \<open>e\<close> is no key of the neighbour dictionary and no entry of the
  table other than the router's own has \<open>e\<close> as its next hop, at any cost. And the
  table that the link-down hands to the recomputation holds \<open>(INFINITY, None)\<close> at
  every destination whose next hop was \<open>e\<close>, and every other entry as it was.
\<close>

theorem next_hop_is_live_neighbor:
  "(d \<noteq> a \<longrightarrow> map_of (distance_vector (run (init a hb) evs)) d = Some (c, nh) \<longrightarrow> c < INFINITY \<longrightarrow>
      (\<exists>v. nh = Some v \<and> v \<in> set (dict_keys (neighbors (run (init a hb) evs))))) \<and>
   (find_endpoint (neighbors r) prt = Some e \<longrightarrow> e \<noteq> [] \<longrightarrow> d' \<noteq> addr r \<longrightarrow>
      e \<notin> set (dict_keys (neighbors (state_of (handle_remove_link r prt)))) \<and>
      map_of (distance_vector (state_of (handle_remove_link r prt))) d' \<noteq> Some (c', Some e)) \<and>
   (find_endpoint (neighbors r) prt = Some e \<longrightarrow> e \<noteq> [] \<longrightarrow>
      handle_remove_link r prt =
        update_dv (r\<lparr>neighbors := dict_del (neighbors r) e,
          neighbor_dvs := dict_del (neighbor_dvs r) e,
          distance_vector := withdraw e (distance_vector r)\<rparr>) \<and>
      map_of (withdraw e (distance_vector r)) d' =
        (case map_of (distance_vector r) d' of
           None \<Rightarrow> None
         | Some (c, nh) \<Rightarrow> if nh = Some e then Some (INFINITY, None) else Some (c, nh)))"
  using hop_run [of d a hb evs c nh] remove_link_no_hop [of r prt e d' c']
    remove_link_withdraws [of r prt e d']
  by blast

theorem next_hop_is_live_neighbor_witness:
  "''D'' \<noteq> ''A'' \<and>
   map_of (distance_vector (run (init ''A'' 100) example_events)) ''D'' = Some (2, Some ''C'') \<and>
   (2::int) < INFINITY \<and>
   ''C'' \<in> set (dict_keys (neighbors (run (init ''A'' 100) example_events))) \<and>
   find_endpoint (neighbors example_router) 2 = Some ''C'' \<and> ''C'' \<noteq> [] \<and>
   ''D'' \<noteq> addr example_router \<and>
   ''C'' \<notin> set (dict_keys (neighbors (state_of (handle_remove_link example_router 2)))) \<and>
   map_of (distance_vector (state_of (handle_remove_link example_router 2))) ''D'' \<noteq>
     Some (2, Some ''C'') \<and>
   handle_remove_link example_router 2 =
     update_dv (example_router\<lparr>neighbors := dict_del (neighbors example_router) ''C'',
       neighbor_dvs := dict_del (neighbor_dvs example_router) ''C'',
       distance_vector := withdraw ''C'' (distance_vector example_router)\<rparr>) \<and>
   map_of (distance_vector example_router) ''D'' = Some (2, Some ''C'') \<and>
   map_of (withdraw ''C'' (distance_vector example_router)) ''D'' = Some (INFINITY, None)"
proof -
  have h: "''D'' \<noteq> ''A''"
    "map_of (distance_vector (run (init ''A'' 100) example_events)) ''D'' = Some (2, Some ''C'')"
    "(2::int) < INFINITY" "''C'' \<noteq> []" "''D'' \<noteq> addr example_router"
    "map_of (distance_vector example_router) ''D'' = Some (2, Some ''C'')"
    by (simp_all add: example_router_run) (simp_all add: example_router_def INFINITY_def)
  note t = next_hop_is_live_neighbor [of "''D''" "''A''" 100 example_events 2 "Some ''C''"
      example_router 2 "''C''" "''D''" 2]
  from t h have p1: "\<exists>v. Some ''C'' = Some v \<and>
      v \<in> set (dict_keys (neighbors (run (init ''A'' 100) example_events)))"
    by blast
  from t h remove_link_example
  have p2: "''C'' \<notin> set (dict_keys (neighbors (state_of (handle_remove_link example_router 2)))) \<and>
      map_of (distance_vector (state_of (handle_remove_link example_router 2))) ''D'' \<noteq>
        Some (2, Some ''C'')"
    by blast
  from t h remove_link_example
  have p3: "handle_remove_link example_router 2 =
        update_dv (example_router\<lparr>neighbors := dict_del (neighbors example_router) ''C'',
          neighbor_dvs := dict_del (neighbor_dvs example_router) ''C'',
          distance_vector := withdraw ''C'' (distance_vector example_router)\<rparr>) \<and>
      map_of (withdraw ''C'' (distance_vector example_router)) ''D'' =
        (case map_of (distance_vector example_router) ''D'' of
           None \<Rightarrow> None
         | Some (c, nh) \<Rightarrow> if nh = Some ''C'' then Some (INFINITY, None) else Some (c, nh))"
    by blast
  from p3 h(6) have p4: "map_of (withdraw ''C'' (distance_vector example_router)) ''D'' =
      Some (INFINITY, None)"
    by simp
  from p1 have p5: "''C'' \<in> set (dict_keys (neighbors (run (init ''A'' 100) example_events)))"
    by simp
  from h remove_link_example p5 p2 p3 p4 show ?thesis by blast
qed

text \<open>
  C5 as it is stated fails in the initial state: the entry of router A for itself
  has cost 0 and next hop A, and A has no neighbour.
\<close>

theorem next_hop_claim_counterexample:
  "map_of (distance_vector (init ''A'' 100)) ''A'' = Some (0, Some ''A'') \<and>
   (0::int) < INFINITY \<and>
   ''A'' \<notin> set (dict_keys (neighbors (init ''A'' 100)))"
  by (simp add: init_def INFINITY_def dict_keys_def)

subsection \<open>Bounds of the costs\<close>

text \<open>
  C7, as amended. After every sequence of events no cost of the routing table exceeds
  \<open>INFINITY\<close>, whatever the neighbours advertised; and no cost is negative when every
  link-up had a non-negative cost and every decoded advertisement had no negative
  cost in it.
\<close>

theorem table_costs_within_bounds:
  assumes "map_of (distance_vector (run (init a hb) evs)) d = Some (c, nh)"
  shows "c \<le> INFINITY \<and> (list_all nonneg_event evs \<longrightarrow> 0 \<le> c)"
  using bounded_run [OF assms] nonneg_run [OF _ assms] by blast

theorem table_costs_within_bounds_witness:
  "map_of (distance_vector (run (init ''A'' 100) example_events)) ''D'' = Some (2, Some ''C'') \<and>
   list_all nonneg_event example_events \<and> (2::int) \<le> INFINITY \<and> (0::int) \<le> 2"
proof -
  have m: "map_of (distance_vector (run (init ''A'' 100) example_events)) ''D'' = Some (2, Some ''C'')"
    by (simp add: example_router_run) (simp add: example_router_def)
  have ok: "list_all nonneg_event example_events"
    by (simp add: example_events_def is_traceroute_def)
  from table_costs_within_bounds [OF m] ok m show ?thesis by simp
qed

text \<open>
  C7 as it is stated fails: the link to B has cost 1, B advertises D at cost -5, and
  the table of A holds D at cost -4.
\<close>

theorem table_costs_claim_counterexample:
  "map_of (distance_vector (run (init ''A'' 100) negative_advert_events)) ''D'' =
     Some (- 4, Some ''B'') \<and> (- 4 :: int) < 0"
  by code_simp

subsection \<open>Forwarding\<close>

text \<open>
  C8. For a data packet, the state is unchanged and the handler returns. Nothing is
  sent when the destination is absent from the routing table, when its cost equals
  \<open>INFINITY\<close>, or when its next hop is none or no key of the neighbour dictionary;
  otherwise the packet itself is sent on the port recorded for the next hop. The
  hypothesis is that the cost the table holds for the destination does not exceed
  \<open>INFINITY\<close>, which \<open>bounded_run\<close> shows of every state of a run.
\<close>

theorem handle_packet_traceroute:
  assumes "is_traceroute p"
    and "\<forall>c nh. map_of (distance_vector r) (dst_addr p) = Some (c, nh) \<longrightarrow> c \<le> INFINITY"
  shows "handle_packet r prt p =
     Inr (r, case map_of (distance_vector r) (dst_addr p) of
               None \<Rightarrow> []
             | Some (c, next_hop) \<Rightarrow>
                 if c = INFINITY then []
                 else (case next_hop of
                         None \<Rightarrow> []
                       | Some v \<Rightarrow>
                           (case map_of (neighbors r) v of
                              None \<Rightarrow> []
                            | Some info \<Rightarrow> [(port info, p)])))"
proof (cases "map_of (distance_vector r) (dst_addr p)")
  case None
  with assms(1) show ?thesis by (simp add: handle_packet_def)
next
  case (Some x)
  obtain c nh where x: "x = (c, nh)" by (cases x)
  from assms(2) Some x have "c \<le> INFINITY" by simp
  then have "c < INFINITY \<longleftrightarrow> c \<noteq> INFINITY" by auto
  with assms(1) Some x show ?thesis
    by (simp add: handle_packet_def split: option.splits)
qed

theorem handle_packet_traceroute_witness:
  "is_traceroute (traceroute_to ''D'') \<and>
   handle_packet example_router 1 (traceroute_to ''D'') =
     Inr (example_router, [(2, traceroute_to ''D'')]) \<and>
   handle_packet example_router 1 (traceroute_to ''Z'') = Inr (example_router, [])"
proof -
  have t: "is_traceroute (traceroute_to d)" for d
    by (simp add: is_traceroute_def traceroute_to_def)
  have b: "\<forall>c nh. map_of (distance_vector example_router) (dst_addr (traceroute_to d)) = Some (c, nh)
             \<longrightarrow> c \<le> INFINITY" for d
    by (auto simp: example_router_def traceroute_to_def INFINITY_def split: if_splits)
  have d: "dst_addr (traceroute_to d) = d" for d
    by (simp add: traceroute_to_def)
  have "handle_packet example_router 1 (traceroute_to ''D'') =
     Inr (example_router, [(2, traceroute_to ''D'')])"
    using handle_packet_traceroute [where p = "traceroute_to ''D''" and r = example_router
        and prt = 1, OF t b]
    by (simp add: d) (simp add: example_router_def INFINITY_def)
  moreover have "handle_packet example_router 1 (traceroute_to ''Z'') = Inr (example_router, [])"
    using handle_packet_traceroute [where p = "traceroute_to ''Z''" and r = example_router
        and prt = 1, OF t b]
    by (simp add: d) (simp add: example_router_def INFINITY_def)
  ultimately show ?thesis using t by simp
qed

text \<open>
  C10. After every sequence of events, when the router's own address is no key of
  the neighbour dictionary, a data packet for the router's own address is dropped:
  the handler returns, the state is unchanged, nothing is sent.
\<close>

theorem self_addressed_packet_dropped:
  assumes "is_traceroute p" and "dst_addr p = a"
    and "a \<notin> set (dict_keys (neighbors (run (init a hb) evs)))"
  shows "handle_packet (run (init a hb) evs) prt p = Inr (run (init a hb) evs, [])"
proof -
  from assms(3) have nb: "map_of (neighbors (run (init a hb) evs)) a = None"
    by (simp add: in_keys_iff)
  from self_run [of a hb evs] show ?thesis
  proof
    assume "map_of (distance_vector (run (init a hb) evs)) a = Some (0, Some a)"
    with assms(1,2) nb show ?thesis by (simp add: handle_packet_def)
  next
    assume "map_of (distance_vector (run (init a hb) evs)) a = Some (INFINITY, None)"
    with assms(1,2) show ?thesis by (simp add: handle_packet_def)
  qed
qed

theorem self_addressed_packet_dropped_witness:
  "is_traceroute (traceroute_to ''A'') \<and> dst_addr (traceroute_to ''A'') = ''A'' \<and>
   ''A'' \<notin> set (dict_keys (neighbors (run (init ''A'' 100) example_events))) \<and>
   handle_packet (run (init ''A'' 100) example_events) 1 (traceroute_to ''A'') =
     Inr (run (init ''A'' 100) example_events, [])"
proof -
  have h: "is_traceroute (traceroute_to ''A'')" "dst_addr (traceroute_to ''A'') = ''A''"
    by (simp_all add: is_traceroute_def traceroute_to_def)
  have n: "''A'' \<notin> set (dict_keys (neighbors (run (init ''A'' 100) example_events)))"
    by (simp add: example_router_run) (simp add: example_router_def dict_keys_def)
  from self_addressed_packet_dropped [OF h n] h n show ?thesis by simp
qed

subsection \<open>Where the code departs from its description\<close>

text \<open>
  A routing packet that does not decode, or that comes from an address that is no
  neighbour, is dropped: the handler returns and the state is the same.
\<close>

lemma handle_packet_discards:
  assumes "\<not> is_traceroute p"
    and "content p = Garbled \<or> src_addr p \<notin> set (dict_keys (neighbors r))"
  shows "handle_packet r prt p = Inr (r, [])"
  using assms
  by (auto simp: handle_packet_def json_loads_def caught_def split: payload.splits)

text \<open>
  C2. A routing packet of the neighbour B whose payload is the JSON list \<open>[]\<close>:
  the handler stores the list as the advertisement of B, \<open>update_dv\<close> raises
  \<^verbatim>\<open>AttributeError\<close> on it, and the \<^verbatim>\<open>except\<close> clause, which names
  \<^verbatim>\<open>JSONDecodeError\<close> and \<^verbatim>\<open>KeyError\<close>, does not catch it. The stored list stays,
  and the next link-up raises the same exception.
\<close>

theorem non_mapping_payload_raises:
  "neighbor_dvs (run (init ''A'' 100) [NewLink 1 ''B'' 1]) = [(''B'', JObj [])] \<and>
   raised (handle_packet (run (init ''A'' 100) [NewLink 1 ''B'' 1]) 1 non_mapping_packet) =
     Some AttributeError \<and>
   neighbor_dvs (state_of (handle_packet (run (init ''A'' 100) [NewLink 1 ''B'' 1]) 1
     non_mapping_packet)) = [(''B'', JArr [])] \<and>
   raised (handle (run (init ''A'' 100) [NewLink 1 ''B'' 1, Packet 1 non_mapping_packet])
     (NewLink 2 ''C'' 1)) = Some AttributeError"
  by code_simp

text \<open>
  C6. Router A reaches D at cost 2 through C. A link-up to the new neighbour D with
  cost 5 does not change the table, so \<open>update_dv\<close> sends nothing: the handler
  returns and no packet is sent.
\<close>

theorem link_up_without_broadcast:
  "''D'' \<notin> set (dict_keys (neighbors (run (init ''A'' 100) example_events))) \<and>
   raised (handle_new_link (run (init ''A'' 100) example_events) 3 ''D'' 5) = None \<and>
   sent_of (handle_new_link (run (init ''A'' 100) example_events) 3 ''D'' 5) = []"
  by code_simp

end
